theory Spec2Isabelle
  imports Main "HOL-Library.Word"
begin

section \<open>Strings\<close>

text \<open>
  A JavaScript string is a sequence of UTF-16 code units. The helper \<open>js\<close> writes an
  ASCII literal as such a sequence.
\<close>

type_synonym jschar = "16 word"
type_synonym jsstring = "jschar list"

definition js :: "string \<Rightarrow> jsstring" where
  "js s = map (\<lambda>c. of_char c) s"

definition quote :: jschar where
  "quote = 0x22"

definition comma :: jschar where
  "comma = 0x2C"

definition LF :: jschar where
  "LF = 0x0A"

definition CR :: jschar where
  "CR = 0x0D"

text \<open>
  \<open>String.prototype.trim\<close> removes the code units of the ECMAScript productions
  WhiteSpace and LineTerminator from both ends.
\<close>

definition isWhiteSpace :: "jschar \<Rightarrow> bool" where
  "isWhiteSpace c =
     (c = 0x09 \<or> c = 0x0A \<or> c = 0x0B \<or> c = 0x0C \<or> c = 0x0D \<or> c = 0x20 \<or> c = 0xA0
      \<or> c = 0x1680 \<or> (0x2000 \<le> c \<and> c \<le> 0x200A) \<or> c = 0x2028 \<or> c = 0x2029
      \<or> c = 0x202F \<or> c = 0x205F \<or> c = 0x3000 \<or> c = 0xFEFF)"

definition trim :: "jsstring \<Rightarrow> jsstring" where
  "trim s = rev (dropWhile isWhiteSpace (rev (dropWhile isWhiteSpace s)))"

text \<open>\<open>s.includes(t)\<close>: \<open>t\<close> occurs in \<open>s\<close> as a contiguous run of code units.\<close>

fun str_includes :: "jsstring \<Rightarrow> jsstring \<Rightarrow> bool" where
  "str_includes [] t = (t = [])"
| "str_includes (c # cs) t = (take (length t) (c # cs) = t \<or> str_includes cs t)"

text \<open>\<open>s.split(',')\<close>: every comma separates; the first argument is the piece being read.\<close>

fun split_comma :: "jsstring \<Rightarrow> jsstring \<Rightarrow> jsstring list" where
  "split_comma cur [] = [cur]"
| "split_comma cur (c # cs) =
     (if c = comma then cur # split_comma [] cs else split_comma (cur @ [c]) cs)"

text \<open>
  \<open>s.split(/\r?\n/)\<close>: a line feed separates, and a carriage return right before it
  belongs to the separator; a carriage return anywhere else stays in the piece.
\<close>

fun split_lines :: "jsstring \<Rightarrow> jsstring \<Rightarrow> jsstring list" where
  "split_lines cur [] = [cur]"
| "split_lines cur (c # cs) =
     (if c = LF then cur # split_lines [] cs
      else if c = CR \<and> cs \<noteq> [] \<and> hd cs = LF then cur # split_lines [] (tl cs)
      else split_lines (cur @ [c]) cs)"

text \<open>
  \<open>s.replace(/^"|"$/g, '')\<close>: a double quote at the very start is removed, and a double
  quote at the very end is removed unless it is that same code unit.
\<close>

definition stripQuotes :: "jsstring \<Rightarrow> jsstring" where
  "stripQuotes s =
     (let s1 = (if s \<noteq> [] \<and> hd s = quote then tl s else s)
      in if s1 \<noteq> [] \<and> last s1 = quote then butlast s1 else s1)"

text \<open>\<open>s.replace(/""/g, '"')\<close>: pairs of double quotes, found left to right, become one.\<close>

fun unescapeQuotes :: "jsstring \<Rightarrow> jsstring" where
  "unescapeQuotes [] = []"
| "unescapeQuotes [c] = [c]"
| "unescapeQuotes (c # d # cs) =
     (if c = quote \<and> d = quote then quote # unescapeQuotes cs
      else c # unescapeQuotes (d # cs))"

section \<open>Configuration\<close>

text \<open>
  The column names of the configuration block, as UTF-16 code units (they are Hangul):
  the title column, the textbook column, the major-unit and the minor-unit column.
\<close>

definition col_title :: jsstring where
  "col_title = [0xC791, 0xD488, 0xBA85, 0x2F, 0xC9C0, 0xBB38, 0xBA85]"

definition col_textbook :: jsstring where
  "col_textbook = [0xC218, 0xB85D, 0xAD50, 0xC7AC]"

definition col_major :: jsstring where
  "col_major = [0xB300, 0xB2E8, 0xC6D0]"

definition col_minor :: jsstring where
  "col_minor = [0xC911, 0xB2E8, 0xC6D0]"

definition SEARCHABLE_COLUMNS :: "jsstring list" where
  "SEARCHABLE_COLUMNS = [col_title]"

definition FILTERABLE_COLUMNS :: "jsstring list" where
  "FILTERABLE_COLUMNS = [col_textbook, col_major, col_minor]"

text \<open>\<open>DISPLAY_COLUMNS\<close> holds one object per column; only its \<open>header\<close> is ever read.\<close>

definition DISPLAY_COLUMNS :: "jsstring list" where
  "DISPLAY_COLUMNS = [col_title, col_textbook, col_major, col_minor]"

definition ITEMS_PER_PAGE :: int where
  "ITEMS_PER_PAGE = 20"

section \<open>CSV line parser\<close>

text \<open>
  \<open>parseCsvLine\<close> is a \<open>for\<close> loop over the index \<open>i\<close> with the mutable locals
  \<open>values\<close>, \<open>currentVal\<close> and \<open>inQuotes\<close>; \<open>scan\<close> is that loop, entered at index \<open>i\<close>.
  Reading \<open>line[i + 1]\<close> past the end gives \<open>undefined\<close>, which is not a double quote.
\<close>

function scan :: "jsstring \<Rightarrow> nat \<Rightarrow> jsstring list \<Rightarrow> jsstring \<Rightarrow> bool \<Rightarrow> jsstring list" where
  "scan line i values currentVal inQuotes =
     (if i < length line then
        (if line ! i = quote then
           (if inQuotes \<and> i + 1 < length line \<and> line ! (i + 1) = quote
            then scan line (i + 2) values (currentVal @ [quote]) inQuotes
            else scan line (i + 1) values currentVal (\<not> inQuotes))
         else if line ! i = comma \<and> \<not> inQuotes
         then scan line (i + 1) (values @ [currentVal]) [] inQuotes
         else scan line (i + 1) values (currentVal @ [line ! i]) inQuotes)
      else values @ [currentVal])"
  by pat_completeness auto
termination
  by (relation "measure (\<lambda>(line, i, values, currentVal, inQuotes). length line - i)") auto

declare scan.simps [simp del]

definition parseCsvLine :: "jsstring \<Rightarrow> jsstring list" where
  "parseCsvLine line = scan line 0 [] [] False"

text \<open>
  The quoting rules as the specification words them, read one character at a time: a
  double quote toggles the quoted state, unless the state is quoted and the next
  character is a double quote too, in which case one literal quote is kept and both are
  consumed; a comma outside quotes ends the field; the end of the line ends the last
  field.
\<close>

fun csv_fields :: "jsstring \<Rightarrow> bool \<Rightarrow> jsstring \<Rightarrow> jsstring list" where
  "csv_fields [] inQ cur = [cur]"
| "csv_fields (c # cs) inQ cur =
     (if c = quote then
        (if inQ \<and> cs \<noteq> [] \<and> hd cs = quote then csv_fields (tl cs) inQ (cur @ [quote])
         else csv_fields cs (\<not> inQ) cur)
      else if c = comma \<and> \<not> inQ then cur # csv_fields cs False []
      else csv_fields cs inQ (cur @ [c]))"

definition spec_parse :: "jsstring \<Rightarrow> jsstring list" where
  "spec_parse line = csv_fields line False []"

text \<open>
  The same scan, also recording for each field whether a double quote was read while
  the field was being collected (the field "was quoted").
\<close>

fun csv_fields_quoted :: "jsstring \<Rightarrow> bool \<Rightarrow> jsstring \<Rightarrow> bool \<Rightarrow> (jsstring \<times> bool) list" where
  "csv_fields_quoted [] inQ cur seen = [(cur, seen)]"
| "csv_fields_quoted (c # cs) inQ cur seen =
     (if c = quote then
        (if inQ \<and> cs \<noteq> [] \<and> hd cs = quote
         then csv_fields_quoted (tl cs) inQ (cur @ [quote]) True
         else csv_fields_quoted cs (\<not> inQ) cur True)
      else if c = comma \<and> \<not> inQ then (cur, seen) # csv_fields_quoted cs False [] False
      else csv_fields_quoted cs inQ (cur @ [c]) seen)"

definition parse_quoted :: "jsstring \<Rightarrow> (jsstring \<times> bool) list" where
  "parse_quoted line = csv_fields_quoted line False [] False"

text \<open>Writing a field back: a quoted field gets its quotes doubled and is enclosed.\<close>

definition double_quotes :: "jsstring \<Rightarrow> jsstring" where
  "double_quotes v = concat (map (\<lambda>c. if c = quote then [quote, quote] else [c]) v)"

definition write_field :: "jsstring \<times> bool \<Rightarrow> jsstring" where
  "write_field f = (if snd f then quote # double_quotes (fst f) @ [quote] else fst f)"

fun rejoin :: "(jsstring \<times> bool) list \<Rightarrow> jsstring" where
  "rejoin [] = []"
| "rejoin [f] = write_field f"
| "rejoin (f # g # fs) = write_field f @ comma # rejoin (g # fs)"

text \<open>A field is plain when it holds neither a double quote nor a comma.\<close>

definition plain :: "jsstring \<Rightarrow> bool" where
  "plain v = (quote \<notin> set v \<and> comma \<notin> set v)"

text \<open>The number of commas that the scan reads while inside quotes.\<close>

fun quoted_commas :: "jsstring \<Rightarrow> bool \<Rightarrow> nat" where
  "quoted_commas [] inQ = 0"
| "quoted_commas (c # cs) inQ =
     (if c = quote then
        (if inQ \<and> cs \<noteq> [] \<and> hd cs = quote then quoted_commas (tl cs) inQ
         else quoted_commas cs (\<not> inQ))
      else if c = comma \<and> inQ then Suc (quoted_commas cs inQ)
      else quoted_commas cs inQ)"

text \<open>
  The other App component splits a data line with
  \<open>line.split(/,(?=(?:(?:[^"]*"){2})*[^"]*$)/)\<close>: a comma separates exactly when an even
  number of double quotes follows it up to the end of the line. The pieces keep their
  quote characters.
\<close>

fun regex_split :: "jsstring \<Rightarrow> jsstring \<Rightarrow> jsstring list" where
  "regex_split cur [] = [cur]"
| "regex_split cur (c # cs) =
     (if c = comma \<and> even (count_list cs quote) then cur # regex_split [] cs
      else regex_split (cur @ [c]) cs)"

section \<open>Record normaliser\<close>

text \<open>
  A row object, as the list of its own properties, each key once, in the order of first
  assignment. (JavaScript enumerates integer-like keys ahead of the others; the program
  only asks whether some value has content and reads single keys, so the order of
  enumeration plays no part.) \<open>map_of row k\<close> is the read \<open>row[k]\<close> of an own property,
  with \<open>None\<close> for \<open>undefined\<close>.
\<close>

type_synonym RowData = "(jsstring \<times> jsstring) list"

text \<open>Creating or updating an own data property.\<close>

fun put_prop :: "jsstring \<Rightarrow> jsstring \<Rightarrow> RowData \<Rightarrow> RowData" where
  "put_prop k v [] = [(k, v)]"
| "put_prop k v (p # ps) = (if fst p = k then (k, v) # ps else p # put_prop k v ps)"

text \<open>
  The assignment \<open>obj[k] = v\<close> on an object that started as \<open>{}\<close> and holds strings. For
  the key \<open>__proto__\<close> it reaches the accessor inherited from \<open>Object.prototype\<close>, whose
  setter ignores a value that is neither an object nor \<open>null\<close>: the object is left as it
  was. Every other key becomes, or stays, an own property holding \<open>v\<close>.
\<close>

definition proto_key :: jsstring where
  "proto_key = js ''__proto__''"

definition set_prop :: "jsstring \<Rightarrow> jsstring \<Rightarrow> RowData \<Rightarrow> RowData" where
  "set_prop k v obj = (if k = proto_key then obj else put_prop k v obj)"

text \<open>\<open>values[index] || ''\<close>: a missing field, like an empty one, reads as the empty string.\<close>

definition value_at :: "jsstring list \<Rightarrow> nat \<Rightarrow> jsstring" where
  "value_at values index = (if index < length values then values ! index else [])"

definition normalize_value :: "jsstring \<Rightarrow> jsstring" where
  "normalize_value value = unescapeQuotes (stripQuotes (trim value))"

definition make_row :: "jsstring list \<Rightarrow> jsstring list \<Rightarrow> RowData" where
  "make_row headers values =
     foldl (\<lambda>obj (index, header). set_prop header (normalize_value (value_at values index)) obj)
       [] (enumerate 0 headers)"

definition parse_headers :: "jsstring \<Rightarrow> jsstring list" where
  "parse_headers line = map (\<lambda>h. stripQuotes (trim h)) (split_comma [] line)"

text \<open>\<open>Object.values(row).some(value => value && value.trim() !== '')\<close>\<close>

definition has_content :: "RowData \<Rightarrow> bool" where
  "has_content row = list_ex (\<lambda>value. value \<noteq> [] \<and> trim value \<noteq> []) (map snd row)"

definition body_lines :: "jsstring \<Rightarrow> jsstring list" where
  "body_lines csvText = split_lines [] (trim csvText)"

text \<open>The rows of the first App component (character-scanning parser, blank rows dropped).\<close>

definition newRows :: "jsstring list \<Rightarrow> RowData list" where
  "newRows lines =
     (let headers = parse_headers (hd lines)
      in filter has_content (map (\<lambda>line. make_row headers (parseCsvLine line)) (tl lines)))"

text \<open>The rows of the second App component (regex split, no row dropped).\<close>

definition newRows_alt :: "jsstring list \<Rightarrow> RowData list" where
  "newRows_alt lines =
     (let headers = parse_headers (hd lines)
      in map (\<lambda>line. make_row headers (regex_split [] line)) (tl lines))"

section \<open>Filter, search, sort\<close>

text \<open>\<open>row[k] || ''\<close>\<close>

definition get_or_empty :: "RowData \<Rightarrow> jsstring \<Rightarrow> jsstring" where
  "get_or_empty row k = (case map_of row k of Some v \<Rightarrow> v | None \<Rightarrow> [])"

text \<open>One round of the loop over \<open>FILTERABLE_COLUMNS\<close> in the first component.\<close>

definition apply_filter_col :: "(jsstring \<rightharpoonup> jsstring) \<Rightarrow> RowData list \<Rightarrow> jsstring \<Rightarrow> RowData list" where
  "apply_filter_col filters results col =
     (case filters col of
        None \<Rightarrow> results
      | Some filterValue \<Rightarrow>
          if filterValue \<noteq> [] then filter (\<lambda>row. map_of row col = Some filterValue) results
          else results)"

definition searchMatch :: "(jsstring \<Rightarrow> jsstring) \<Rightarrow> jsstring \<Rightarrow> RowData \<Rightarrow> bool" where
  "searchMatch toLowerCase lowercasedTerm row =
     list_ex (\<lambda>col. case map_of row col of
                      None \<Rightarrow> False
                    | Some v \<Rightarrow> v \<noteq> [] \<and> str_includes (toLowerCase v) lowercasedTerm)
       SEARCHABLE_COLUMNS"

text \<open>
  \<open>localeCompare\<close> is the host's \<open>String.prototype.localeCompare\<close>, here with the locale
  argument first (\<open>None\<close> when the call passes none, which selects the host's default
  locale) and then the two strings. The first component calls it with \<open>'ko'\<close>.
\<close>

definition locale_ko :: jsstring where
  "locale_ko = js ''ko''"

text \<open>The comparator handed to \<open>sort\<close> in the first component.\<close>

definition compareRows ::
  "(jsstring option \<Rightarrow> jsstring \<Rightarrow> jsstring \<Rightarrow> int) \<Rightarrow> jsstring \<Rightarrow> RowData \<Rightarrow> RowData \<Rightarrow> int" where
  "compareRows localeCompare sortKey a b =
     (if sortKey = DISPLAY_COLUMNS ! 1 then
        (let textbookCompare =
               localeCompare (Some locale_ko) (get_or_empty a (DISPLAY_COLUMNS ! 1))
                 (get_or_empty b (DISPLAY_COLUMNS ! 1))
         in if textbookCompare \<noteq> 0 then textbookCompare
            else
              (let mainUnitCompare =
                     localeCompare (Some locale_ko) (get_or_empty a (DISPLAY_COLUMNS ! 2))
                       (get_or_empty b (DISPLAY_COLUMNS ! 2))
               in if mainUnitCompare \<noteq> 0 then mainUnitCompare
                  else localeCompare (Some locale_ko) (get_or_empty a (DISPLAY_COLUMNS ! 3))
                         (get_or_empty b (DISPLAY_COLUMNS ! 3))))
      else localeCompare (Some locale_ko) (get_or_empty a sortKey) (get_or_empty b sortKey))"

text \<open>
  The comparator of the second component: always the first display column, and
  \<open>localeCompare\<close> called without a locale.
\<close>

definition compareRows_alt ::
  "(jsstring option \<Rightarrow> jsstring \<Rightarrow> jsstring \<Rightarrow> int) \<Rightarrow> RowData \<Rightarrow> RowData \<Rightarrow> int" where
  "compareRows_alt localeCompare a b =
     localeCompare None (get_or_empty a (DISPLAY_COLUMNS ! 0)) (get_or_empty b (DISPLAY_COLUMNS ! 0))"

text \<open>
  \<open>Array.prototype.sort\<close> is stable, and for a consistent comparator its result is the
  one stable sorted arrangement; that arrangement is computed here by insertion, each
  element going in front of the first one it does not exceed.
\<close>

fun insert_sorted :: "('a \<Rightarrow> 'a \<Rightarrow> int) \<Rightarrow> 'a \<Rightarrow> 'a list \<Rightarrow> 'a list" where
  "insert_sorted cmp x [] = [x]"
| "insert_sorted cmp x (y # ys) = (if cmp x y \<le> 0 then x # y # ys else y # insert_sorted cmp x ys)"

definition js_sort :: "('a \<Rightarrow> 'a \<Rightarrow> int) \<Rightarrow> 'a list \<Rightarrow> 'a list" where
  "js_sort cmp xs = foldr (insert_sorted cmp) xs []"

text \<open>What ECMAScript asks of a comparator for the order of the result to be defined.\<close>

definition consistent_comparator :: "('a \<Rightarrow> 'a \<Rightarrow> int) \<Rightarrow> bool" where
  "consistent_comparator cmp =
     ((\<forall>a b. sgn (cmp b a) = - sgn (cmp a b)) \<and>
      (\<forall>a b c. cmp a b \<le> 0 \<and> cmp b c \<le> 0 \<longrightarrow> cmp a c \<le> 0))"

fun adjacent_sorted :: "('a \<Rightarrow> 'a \<Rightarrow> int) \<Rightarrow> 'a list \<Rightarrow> bool" where
  "adjacent_sorted cmp [] = True"
| "adjacent_sorted cmp [x] = True"
| "adjacent_sorted cmp (x # y # zs) = (cmp x y \<le> 0 \<and> adjacent_sorted cmp (y # zs))"

definition filteredData ::
  "(jsstring \<Rightarrow> jsstring) \<Rightarrow> (jsstring option \<Rightarrow> jsstring \<Rightarrow> jsstring \<Rightarrow> int) \<Rightarrow> RowData list \<Rightarrow> jsstring
     \<Rightarrow> (jsstring \<rightharpoonup> jsstring) \<Rightarrow> jsstring \<Rightarrow> RowData list" where
  "filteredData toLowerCase localeCompare data searchTerm filters sortKey =
     (let lowercasedTerm = toLowerCase searchTerm;
          results = foldl (apply_filter_col filters) data FILTERABLE_COLUMNS;
          results = (if searchTerm \<noteq> [] then filter (searchMatch toLowerCase lowercasedTerm) results
                     else results)
      in js_sort (compareRows localeCompare sortKey) results)"

definition filterMatch :: "(jsstring \<rightharpoonup> jsstring) \<Rightarrow> RowData \<Rightarrow> bool" where
  "filterMatch filters row =
     list_all (\<lambda>col. case filters col of
                       None \<Rightarrow> True
                     | Some filterValue \<Rightarrow> filterValue = [] \<or> map_of row col = Some filterValue)
       FILTERABLE_COLUMNS"

definition filteredData_alt ::
  "(jsstring \<Rightarrow> jsstring) \<Rightarrow> (jsstring option \<Rightarrow> jsstring \<Rightarrow> jsstring \<Rightarrow> int) \<Rightarrow> RowData list \<Rightarrow> jsstring
     \<Rightarrow> (jsstring \<rightharpoonup> jsstring) \<Rightarrow> RowData list" where
  "filteredData_alt toLowerCase localeCompare data searchTerm filters =
     (let lowercasedTerm = toLowerCase searchTerm;
          results = filter (\<lambda>row. if \<not> filterMatch filters row then False
                                   else if searchTerm = [] then True
                                   else searchMatch toLowerCase lowercasedTerm row) data
      in js_sort (compareRows_alt localeCompare) results)"

section \<open>Pagination\<close>

text \<open>\<open>xs.slice(start, fin)\<close>, a negative index counting from the end.\<close>

definition js_slice :: "'a list \<Rightarrow> int \<Rightarrow> int \<Rightarrow> 'a list" where
  "js_slice xs start fin =
     (let len = int (length xs);
          k = (if start < 0 then max (len + start) 0 else min start len);
          final = (if fin < 0 then max (len + fin) 0 else min fin len)
      in take (nat (final - k)) (drop (nat k) xs))"

definition paginatedData :: "'a list \<Rightarrow> int \<Rightarrow> 'a list" where
  "paginatedData rows page =
     (let startIndex = (page - 1) * ITEMS_PER_PAGE
      in js_slice rows startIndex (startIndex + ITEMS_PER_PAGE))"

section \<open>Component state\<close>

text \<open>
  The messages \<open>setError\<close> is called with: the failed-fetch message with the transport
  status, the message of a thrown error, the fallback for an error without message, and
  the empty-sheet message.
\<close>

datatype error_msg = FetchFailed int | Thrown jsstring | Unexpected | SheetEmpty

text \<open>
  What \<open>fetch\<close> and \<open>response.text()\<close> deliver: a rejection with its message, or a
  status and a body; \<open>response.ok\<close> is a status from 200 to 299.
\<close>

datatype response = Rejected jsstring | Response int jsstring

definition response_ok :: "int \<Rightarrow> bool" where
  "response_ok status = (200 \<le> status \<and> status \<le> 299)"

text \<open>
  The state both App components hold (\<open>isInitialMount\<close> is the ref of that name); the
  first component holds a sort key as well.
\<close>

record base_state =
  data :: "RowData list"
  searchTerm :: jsstring
  filters :: "jsstring \<rightharpoonup> jsstring"
  isLoading :: bool
  error :: "error_msg option"
  lastUpdated :: "nat option"
  currentPage :: int
  isInitialMount :: bool

record app_state = base_state +
  sortKey :: jsstring

text \<open>
  One run of \<open>fetchData\<close>, from the call to the end of its \<open>finally\<close> block, given what
  the network delivered and the clock reading; a run is taken as a whole, runs do not
  overlap. The two components differ only in how the rows are built from the lines.
\<close>

definition fetch_run ::
  "(jsstring list \<Rightarrow> RowData list) \<Rightarrow> 'a base_state_scheme \<Rightarrow> response \<Rightarrow> nat \<Rightarrow> 'a base_state_scheme" where
  "fetch_run rows st resp now =
     (let initial = isInitialMount st;
          st1 = (if initial then st\<lparr>isLoading := True\<rparr> else st);
          st2 = st1\<lparr>error := None\<rparr>;
          st3 =
            (case resp of
               Rejected message \<Rightarrow>
                 st2\<lparr>error := Some (if message \<noteq> [] then Thrown message else Unexpected)\<rparr>
             | Response status csvText \<Rightarrow>
                 if \<not> response_ok status then st2\<lparr>error := Some (FetchFailed status)\<rparr>
                 else
                   (let lines = body_lines csvText;
                        st' = (if length lines < 2
                               then (let e = st2\<lparr>data := []\<rparr>
                                     in if initial then e\<lparr>error := Some SheetEmpty\<rparr> else e)
                               else st2\<lparr>data := rows lines\<rparr>)
                    in st'\<lparr>lastUpdated := Some now\<rparr>))
      in if initial then st3\<lparr>isLoading := False, isInitialMount := False\<rparr> else st3)"

definition fetchData :: "app_state \<Rightarrow> response \<Rightarrow> nat \<Rightarrow> app_state" where
  "fetchData = fetch_run newRows"

definition fetchData_alt :: "base_state \<Rightarrow> response \<Rightarrow> nat \<Rightarrow> base_state" where
  "fetchData_alt = fetch_run newRows_alt"

text \<open>\<open>FILTERABLE_COLUMNS.indexOf(column)\<close>, with \<open>None\<close> for \<open>-1\<close>.\<close>

fun index_of :: "jsstring list \<Rightarrow> jsstring \<Rightarrow> nat option" where
  "index_of [] k = None"
| "index_of (x # xs) k = (if x = k then Some 0 else map_option Suc (index_of xs k))"

definition handleFilterChange ::
  "(jsstring \<rightharpoonup> jsstring) \<Rightarrow> jsstring \<Rightarrow> jsstring \<Rightarrow> (jsstring \<rightharpoonup> jsstring)" where
  "handleFilterChange prev column v =
     (let newFilters = (if v \<noteq> [] then prev(column \<mapsto> v) else prev(column := None))
      in case index_of FILTERABLE_COLUMNS column of
           None \<Rightarrow> newFilters
         | Some filterIndex \<Rightarrow>
             foldl (\<lambda>m c. m(c := None)) newFilters (drop (filterIndex + 1) FILTERABLE_COLUMNS))"

definition handleFilterChange_alt ::
  "(jsstring \<rightharpoonup> jsstring) \<Rightarrow> jsstring \<Rightarrow> jsstring \<Rightarrow> (jsstring \<rightharpoonup> jsstring)" where
  "handleFilterChange_alt prev column v = prev(column \<mapsto> v)"

text \<open>
  The events of the first component: typing in the search box, choosing in a filter
  dropdown, the reset button, choosing a sort order, a pagination button, and a fetch
  run completing.
\<close>

datatype event =
    SetSearchTerm jsstring
  | FilterChange jsstring jsstring
  | ResetFilters
  | SetSortKey jsstring
  | PageChange int
  | Fetched response nat

fun handle :: "app_state \<Rightarrow> event \<Rightarrow> app_state" where
  "handle st (SetSearchTerm v) = st\<lparr>searchTerm := v\<rparr>"
| "handle st (FilterChange column v) = st\<lparr>filters := handleFilterChange (filters st) column v\<rparr>"
| "handle st ResetFilters = st\<lparr>filters := Map.empty\<rparr>"
| "handle st (SetSortKey k) = st\<lparr>sortKey := k\<rparr>"
| "handle st (PageChange p) = st\<lparr>currentPage := p\<rparr>"
| "handle st (Fetched resp now) = fetchData st resp now"

text \<open>
  \<open>setFilters\<close> is always given a freshly built object, so after these events the
  \<open>filters\<close> dependency differs by identity whatever its content.
\<close>

fun replaces_filters :: "event \<Rightarrow> bool" where
  "replaces_filters (FilterChange column v) = True"
| "replaces_filters ResetFilters = True"
| "replaces_filters ev = False"

text \<open>
  A transition: the handler, then the effect with the dependencies
  \<open>[searchTerm, filters, sortKey]\<close>, which runs \<open>setCurrentPage(1)\<close> when one of them
  is no longer the same.
\<close>

definition step :: "app_state \<Rightarrow> event \<Rightarrow> app_state" where
  "step st ev =
     (let st' = handle st ev
      in if searchTerm st' \<noteq> searchTerm st \<or> replaces_filters ev \<or> sortKey st' \<noteq> sortKey st
         then st'\<lparr>currentPage := 1\<rparr> else st')"

text \<open>The second component has no sort key and no reset button; its effect depends on
  \<open>[searchTerm, filters]\<close>.\<close>

datatype event_alt =
    SetSearchTerm_alt jsstring
  | FilterChange_alt jsstring jsstring
  | PageChange_alt int
  | Fetched_alt response nat

fun handle_alt :: "base_state \<Rightarrow> event_alt \<Rightarrow> base_state" where
  "handle_alt st (SetSearchTerm_alt v) = st\<lparr>searchTerm := v\<rparr>"
| "handle_alt st (FilterChange_alt column v) =
     st\<lparr>filters := handleFilterChange_alt (filters st) column v\<rparr>"
| "handle_alt st (PageChange_alt p) = st\<lparr>currentPage := p\<rparr>"
| "handle_alt st (Fetched_alt resp now) = fetchData_alt st resp now"

fun replaces_filters_alt :: "event_alt \<Rightarrow> bool" where
  "replaces_filters_alt (FilterChange_alt column v) = True"
| "replaces_filters_alt ev = False"

definition step_alt :: "base_state \<Rightarrow> event_alt \<Rightarrow> base_state" where
  "step_alt st ev =
     (let st' = handle_alt st ev
      in if searchTerm st' \<noteq> searchTerm st \<or> replaces_filters_alt ev
         then st'\<lparr>currentPage := 1\<rparr> else st')"

section \<open>Sample data\<close>

text \<open>
  Stand-ins for the two host functions, used where a statement is instantiated:
  lower-casing of the ASCII letters, and comparison by code units, which is a consistent
  comparator.
\<close>

definition ascii_lower :: "jsstring \<Rightarrow> jsstring" where
  "ascii_lower s = map (\<lambda>c. if 0x41 \<le> c \<and> c \<le> 0x5A then c + 0x20 else c) s"

fun codeunit_compare :: "jsstring \<Rightarrow> jsstring \<Rightarrow> int" where
  "codeunit_compare [] [] = 0"
| "codeunit_compare [] (y # ys) = - 1"
| "codeunit_compare (x # xs) [] = 1"
| "codeunit_compare (x # xs) (y # ys) =
     (if x < y then - 1 else if y < x then 1 else codeunit_compare xs ys)"

text \<open>Three rows, a filter selection and a state of each component.\<close>

definition sample_row1 :: RowData where
  "sample_row1 = [(col_title, js ''Zebra''), (col_textbook, js ''B'')]"

definition sample_row2 :: RowData where
  "sample_row2 = [(col_title, js ''apple''), (col_textbook, js ''A'')]"

definition sample_row3 :: RowData where
  "sample_row3 = [(col_title, js ''Apple pie''), (col_textbook, js ''B'')]"

definition sample_filters :: "jsstring \<rightharpoonup> jsstring" where
  "sample_filters = [col_textbook \<mapsto> js ''B'']"

definition sample_state :: app_state where
  "sample_state =
     \<lparr>data = [sample_row1], searchTerm = [], filters = Map.empty, isLoading = False,
      error = None, lastUpdated = Some 0, currentPage = 3, isInitialMount = False,
      sortKey = col_title\<rparr>"

definition sample_state_alt :: base_state where
  "sample_state_alt =
     \<lparr>data = [sample_row1], searchTerm = [], filters = Map.empty, isLoading = False,
      error = None, lastUpdated = Some 0, currentPage = 3, isInitialMount = False\<rparr>"

text \<open>
  A host for which the two collations differ: its default collation compares by code
  units, so that Latin letters precede Hangul, and its Korean collation counts the code
  units from the first Hangul syllable U+AC00 onwards (wrapping around), so that Hangul
  precedes Latin. Two rows, one with a Latin and one with a Hangul title.
\<close>

definition hangul_first :: "jsstring \<Rightarrow> jsstring" where
  "hangul_first s = map (\<lambda>c. c + 0x5400) s"

definition sample_host :: "jsstring option \<Rightarrow> jsstring \<Rightarrow> jsstring \<Rightarrow> int" where
  "sample_host locale a b =
     (if locale = Some locale_ko then codeunit_compare (hangul_first a) (hangul_first b)
      else codeunit_compare a b)"

definition sample_row_latin :: RowData where
  "sample_row_latin = [(col_title, js ''a'')]"

definition sample_row_hangul :: RowData where
  "sample_row_hangul = [(col_title, [0xAC00])]"

lemmas sample_defs = sample_row1_def sample_row2_def sample_row3_def sample_filters_def
  col_title_def col_textbook_def col_major_def col_minor_def
  FILTERABLE_COLUMNS_def SEARCHABLE_COLUMNS_def DISPLAY_COLUMNS_def

section \<open>The parser loop and the quoting rules\<close>

text \<open>
  The index loop of \<open>parseCsvLine\<close>, entered at \<open>i\<close>, yields the fields already pushed
  followed by what the quoting rules yield on the rest of the line.
\<close>

lemma scan_csv_fields:
  "i \<le> length line \<Longrightarrow> scan line i vals cur inQ = vals @ csv_fields (drop i line) inQ cur"
proof (induction line i vals cur inQ rule: scan.induct)
  case (1 line i vals cur inQ)
  show ?case
  proof (cases "i < length line")
    case False
    with "1.prems" show ?thesis by (subst scan.simps) simp
  next
    case True
    then have d: "drop i line = line ! i # drop (Suc i) line"
      by (simp add: Cons_nth_drop_Suc)
    have nxt: "(drop (Suc i) line \<noteq> [] \<and> hd (drop (Suc i) line) = quote)
               = (i + 1 < length line \<and> line ! (i + 1) = quote)"
      by (auto simp: hd_drop_conv_nth)
    have tl2: "tl (drop (Suc i) line) = drop (i + 2) line"
      by (simp add: drop_Suc tl_drop)
    show ?thesis
    proof (cases "line ! i = quote")
      case q: True
      show ?thesis
      proof (cases "inQ \<and> i + 1 < length line \<and> line ! (i + 1) = quote")
        case esc: True
        have "scan line i vals cur inQ = scan line (i + 2) vals (cur @ [quote]) inQ"
          using True q esc by (subst scan.simps) simp
        also have "\<dots> = vals @ csv_fields (drop (i + 2) line) inQ (cur @ [quote])"
          using "1.IH"(1)[OF True q esc] esc by simp
        also have "\<dots> = vals @ csv_fields (drop i line) inQ cur"
          using q esc nxt by (simp add: d tl2)
        finally show ?thesis .
      next
        case noesc: False
        have "scan line i vals cur inQ = scan line (i + 1) vals cur (\<not> inQ)"
          using True q noesc by (subst scan.simps) auto
        also have "\<dots> = vals @ csv_fields (drop (i + 1) line) (\<not> inQ) cur"
          using "1.IH"(2)[OF True q noesc] True by simp
        also have "\<dots> = vals @ csv_fields (drop i line) inQ cur"
          using q noesc nxt by (auto simp: d)
        finally show ?thesis .
      qed
    next
      case nq: False
      show ?thesis
      proof (cases "line ! i = comma \<and> \<not> inQ")
        case sep: True
        have "scan line i vals cur inQ = scan line (i + 1) (vals @ [cur]) [] inQ"
          using True nq sep by (subst scan.simps) simp
        also have "\<dots> = (vals @ [cur]) @ csv_fields (drop (i + 1) line) inQ []"
          using "1.IH"(3)[OF True nq sep] True by simp
        also have "\<dots> = vals @ csv_fields (drop i line) inQ cur"
          using nq sep by (auto simp: d)
        finally show ?thesis .
      next
        case other: False
        have "scan line i vals cur inQ = scan line (i + 1) vals (cur @ [line ! i]) inQ"
          using True nq other by (subst scan.simps) auto
        also have "\<dots> = vals @ csv_fields (drop (i + 1) line) inQ (cur @ [line ! i])"
          using "1.IH"(4)[OF True nq other] True by simp
        also have "\<dots> = vals @ csv_fields (drop i line) inQ cur"
          using nq other by (auto simp: d)
        finally show ?thesis .
      qed
    qed
  qed
qed

lemma parseCsvLine_spec_parse: "parseCsvLine line = spec_parse line"
  by (simp add: parseCsvLine_def spec_parse_def scan_csv_fields)

text \<open>Reading back what \<open>write_field\<close> and \<open>rejoin\<close> wrote.\<close>

lemma csv_fields_plain:
  "plain f \<Longrightarrow> csv_fields (f @ rest) False cur = csv_fields rest False (cur @ f)"
  by (induction f arbitrary: cur) (auto simp: plain_def)

lemma csv_fields_inside:
  "rest = [] \<or> hd rest \<noteq> quote \<Longrightarrow>
   csv_fields (double_quotes v @ quote # rest) True cur = csv_fields rest False (cur @ v)"
  by (induction v arbitrary: cur) (auto simp: double_quotes_def)

lemma csv_fields_write_field:
  assumes "snd f \<or> plain (fst f)" and "rest = [] \<or> hd rest \<noteq> quote"
  shows "csv_fields (write_field f @ rest) False [] = csv_fields rest False (fst f)"
proof (cases "snd f")
  case True
  with assms(2) show ?thesis
    by (simp add: write_field_def csv_fields_inside)
next
  case False
  with assms(1) show ?thesis
    using csv_fields_plain[of "fst f" rest "[]"] by (simp add: write_field_def)
qed

lemma csv_fields_rejoin:
  "fs \<noteq> [] \<Longrightarrow> list_all (\<lambda>f. snd f \<or> plain (fst f)) fs \<Longrightarrow>
   csv_fields (rejoin fs) False [] = map fst fs"
proof (induction fs rule: rejoin.induct)
  case 1
  then show ?case by simp
next
  case (2 f)
  then show ?case
    using csv_fields_write_field[of f "[]"] by simp
next
  case (3 f g fs)
  have "csv_fields (write_field f @ comma # rejoin (g # fs)) False []
        = csv_fields (comma # rejoin (g # fs)) False (fst f)"
    using 3(3) by (intro csv_fields_write_field) (auto simp: comma_def quote_def)
  with 3 show ?case by (simp add: comma_def quote_def)
qed

lemma csv_fields_quoted_fst:
  "map fst (csv_fields_quoted cs inQ cur seen) = csv_fields cs inQ cur"
  by (induction cs inQ cur seen rule: csv_fields_quoted.induct) auto

lemma csv_fields_quoted_nonempty: "csv_fields_quoted cs inQ cur seen \<noteq> []"
  by (induction cs inQ cur seen rule: csv_fields_quoted.induct) auto

lemma csv_fields_quoted_plain:
  "seen \<or> (\<not> inQ \<and> plain cur) \<Longrightarrow>
   list_all (\<lambda>f. snd f \<or> plain (fst f)) (csv_fields_quoted cs inQ cur seen)"
  by (induction cs inQ cur seen rule: csv_fields_quoted.induct) (auto simp: plain_def)

lemma parse_example_quoted_commas:
  "parseCsvLine (js ''\"a,b\",\"c,d\"'') = [js ''a,b'', js ''c,d'']"
  by (simp add: parseCsvLine_def js_def quote_def comma_def scan.simps)

lemma regex_example_quoted_commas:
  "regex_split [] (js ''\"a,b\",\"c,d\"'') = [js ''\"a,b\"'', js ''\"c,d\"'']"
  by (simp add: js_def quote_def comma_def)

lemma count_example_quoted_commas: "quoted_commas (js ''\"a,b\",\"c,d\"'') False = 2"
  by (simp add: js_def quote_def comma_def)

lemma parse_example_open_quote: "parseCsvLine (js ''\"a,b,c'') = [js ''a,b,c'']"
  by (simp add: parseCsvLine_def js_def quote_def comma_def scan.simps)

lemma regex_example_open_quote:
  "regex_split [] (js ''\"a,b,c'') = [js ''\"a'', js ''b'', js ''c'']"
  by (simp add: js_def quote_def comma_def)

section \<open>Claims about the parser\<close>

text \<open>
  C4. A comma inside a quoted field is literal, and a doubled double quote inside a
  quoted field becomes one literal quote: the line \<open>a,"b,c",d\<close> parses to the three
  fields \<open>a\<close>, \<open>b,c\<close>, \<open>d\<close>, and the line \<open>a,"b""c",d\<close> parses to \<open>a\<close>, \<open>b"c\<close>, \<open>d\<close>.
  In general, any text \<open>v\<close>, commas and quotes included, written between double quotes
  with its quotes doubled, parses to the single field \<open>v\<close>.
\<close>

theorem parseCsvLine_quoting_examples:
  "parseCsvLine (js ''a,\"b,c\",d'') = [js ''a'', js ''b,c'', js ''d''] \<and>
   parseCsvLine (js ''a,\"b\"\"c\",d'') = [js ''a'', js ''b\"c'', js ''d''] \<and>
   parseCsvLine (quote # double_quotes v @ [quote]) = [v]"
proof -
  have "parseCsvLine (quote # double_quotes v @ [quote]) = [v]"
    using csv_fields_inside[of "[]" v "[]"] by (simp add: parseCsvLine_spec_parse spec_parse_def)
  then show ?thesis
    by (simp add: parseCsvLine_def js_def quote_def comma_def scan.simps)
qed

text \<open>
  C5. Parsing a line, writing the fields back separated by commas (a field that was
  quoted in the line is enclosed in double quotes with its own quotes doubled, any other
  field is written as it is), and parsing again gives the field values of the original
  line. The fields written back are exactly those of \<open>parseCsvLine\<close>. This holds for
  every line, so in particular for every line with balanced quoting.
\<close>

theorem parse_rejoin_roundtrip:
  "map fst (parse_quoted line) = parseCsvLine line \<and>
   parseCsvLine (rejoin (parse_quoted line)) = parseCsvLine line"
proof -
  have a: "map fst (parse_quoted line) = parseCsvLine line"
    by (simp add: parse_quoted_def parseCsvLine_spec_parse spec_parse_def csv_fields_quoted_fst)
  have "list_all (\<lambda>f. snd f \<or> plain (fst f)) (parse_quoted line)"
    unfolding parse_quoted_def by (rule csv_fields_quoted_plain) (simp add: plain_def)
  then have "csv_fields (rejoin (parse_quoted line)) False [] = map fst (parse_quoted line)"
    by (intro csv_fields_rejoin) (simp_all add: parse_quoted_def csv_fields_quoted_nonempty)
  with a show ?thesis by (simp add: parseCsvLine_spec_parse spec_parse_def)
qed

text \<open>
  C6. The regex split and the character-scanning parser are not equivalent: on the line
  \<open>"a,b","c,d"\<close>, which has two commas inside quotes, they return different field
  sequences (the regex split keeps the quote characters in its pieces), and on the line
  \<open>"a,b,c\<close>, whose quote is never closed, the parser returns the one field \<open>a,b,c\<close>
  where the regex split returns three pieces. On every line with two or more quoted
  commas where the two differ, the output of \<open>parseCsvLine\<close> is the one the quoting
  rules prescribe, and that of the regex split is not.
\<close>

theorem regex_split_not_equivalent:
  "(\<exists>line. 2 \<le> quoted_commas line False \<and> regex_split [] line \<noteq> parseCsvLine line) \<and>
   (\<forall>line. 2 \<le> quoted_commas line False \<and> regex_split [] line \<noteq> parseCsvLine line \<longrightarrow>
      parseCsvLine line = spec_parse line \<and> regex_split [] line \<noteq> spec_parse line) \<and>
   parseCsvLine (js ''\"a,b,c'') = [js ''a,b,c''] \<and>
   regex_split [] (js ''\"a,b,c'') = [js ''\"a'', js ''b'', js ''c'']"
proof -
  let ?l = "js ''\"a,b\",\"c,d\"''"
  have "regex_split [] ?l \<noteq> parseCsvLine ?l"
    unfolding parse_example_quoted_commas regex_example_quoted_commas
    by (simp add: js_def)
  then have "\<exists>line. 2 \<le> quoted_commas line False \<and> regex_split [] line \<noteq> parseCsvLine line"
    using count_example_quoted_commas by (intro exI[of _ ?l]) simp
  then show ?thesis
    using parse_example_open_quote regex_example_open_quote
    by (simp add: parseCsvLine_spec_parse)
qed

theorem regex_split_not_equivalent_witness:
  "2 \<le> quoted_commas (js ''\"a,b\",\"c,d\"'') False \<and>
   regex_split [] (js ''\"a,b\",\"c,d\"'') = [js ''\"a,b\"'', js ''\"c,d\"''] \<and>
   parseCsvLine (js ''\"a,b\",\"c,d\"'') = [js ''a,b'', js ''c,d''] \<and>
   parseCsvLine (js ''\"a,b\",\"c,d\"'') = spec_parse (js ''\"a,b\",\"c,d\"'') \<and>
   regex_split [] (js ''\"a,b\",\"c,d\"'') \<noteq> spec_parse (js ''\"a,b\",\"c,d\"'')"
proof -
  let ?l = "js ''\"a,b\",\"c,d\"''"
  have h: "2 \<le> quoted_commas ?l False \<and> regex_split [] ?l \<noteq> parseCsvLine ?l"
    unfolding parse_example_quoted_commas regex_example_quoted_commas count_example_quoted_commas
    by (simp add: js_def)
  have "parseCsvLine ?l = spec_parse ?l \<and> regex_split [] ?l \<noteq> spec_parse ?l"
    using regex_split_not_equivalent h by blast
  with h show ?thesis
    using parse_example_quoted_commas regex_example_quoted_commas by simp
qed

section \<open>Sorting and comparators\<close>

lemma codeunit_compare_sgn: "sgn (codeunit_compare b a) = - sgn (codeunit_compare a b)"
  by (induction a b rule: codeunit_compare.induct) auto

lemma codeunit_compare_trans:
  "codeunit_compare a b \<le> 0 \<Longrightarrow> codeunit_compare b c \<le> 0 \<Longrightarrow> codeunit_compare a c \<le> 0"
proof (induction a b arbitrary: c rule: codeunit_compare.induct)
  case 1
  then show ?case by simp
next
  case (2 y ys)
  then show ?case by (cases c) auto
next
  case (3 x xs)
  then show ?case by simp
next
  case (4 x xs y ys)
  then show ?case by (cases c) (auto split: if_splits)
qed

lemma codeunit_compare_consistent: "consistent_comparator codeunit_compare"
  unfolding consistent_comparator_def
  using codeunit_compare_sgn codeunit_compare_trans by blast

lemma set_insert_sorted: "set (insert_sorted cmp x ys) = insert x (set ys)"
  by (induction ys) auto

lemma set_js_sort: "set (js_sort cmp xs) = set xs"
  by (induction xs) (auto simp: js_sort_def set_insert_sorted)

lemma length_js_sort: "length (js_sort cmp xs) = length xs"
proof -
  have "length (insert_sorted cmp x ys) = Suc (length ys)" for x ys
    by (induction ys) auto
  then show ?thesis by (induction xs) (auto simp: js_sort_def)
qed

lemma adjacent_sorted_insert:
  assumes tot: "\<And>a b. \<not> cmp a b \<le> 0 \<Longrightarrow> cmp b a \<le> 0"
    and srt: "adjacent_sorted cmp ys"
  shows "adjacent_sorted cmp (insert_sorted cmp x ys)"
  using srt
proof (induction ys)
  case Nil
  show ?case by simp
next
  case (Cons y ys)
  show ?case
  proof (cases ys)
    case Nil
    then show ?thesis using tot[of x y] by auto
  next
    case (Cons z zs)
    with Cons.IH Cons.prems show ?thesis using tot[of x y] by auto
  qed
qed

lemma adjacent_sorted_js_sort:
  assumes tot: "\<And>a b. \<not> cmp a b \<le> 0 \<Longrightarrow> cmp b a \<le> 0"
  shows "adjacent_sorted cmp (js_sort cmp xs)"
proof (induction xs)
  case Nil
  show ?case by (simp add: js_sort_def)
next
  case (Cons x xs)
  have "js_sort cmp (x # xs) = insert_sorted cmp x (js_sort cmp xs)"
    by (simp add: js_sort_def)
  with Cons show ?case
    using adjacent_sorted_insert[of cmp "js_sort cmp xs" x] tot by simp
qed

lemma adjacent_sorted_nth:
  "adjacent_sorted cmp xs \<Longrightarrow> Suc i < length xs \<Longrightarrow> cmp (xs ! i) (xs ! Suc i) \<le> 0"
proof (induction xs arbitrary: i)
  case Nil
  then show ?case by simp
next
  case (Cons x xs)
  show ?case
  proof (cases xs)
    case Nil
    with Cons.prems show ?thesis by simp
  next
    case (Cons y ys)
    with Cons.IH Cons.prems show ?thesis by (cases i) auto
  qed
qed

lemma consistent_pos_neg:
  assumes c: "consistent_comparator cmp" and p: "\<not> cmp a b \<le> 0"
  shows "cmp b a < 0"
proof -
  from c have e: "sgn (cmp b a) = - sgn (cmp a b)"
    unfolding consistent_comparator_def by blast
  from p have "sgn (cmp a b) = 1" by simp
  with e have "sgn (cmp b a) = - 1" by simp
  then show ?thesis by (simp only: sgn_1_neg)
qed

lemma consistent_zero:
  assumes c: "consistent_comparator cmp" and p: "cmp a b = 0"
  shows "cmp b a = 0"
proof -
  from c have e: "sgn (cmp b a) = - sgn (cmp a b)"
    unfolding consistent_comparator_def by blast
  with p have "sgn (cmp b a) = 0" by simp
  then show ?thesis by (simp only: sgn_0_0)
qed

lemma chain_total:
  fixes t m s t' m' s' :: int
  assumes "\<not> t \<le> 0 \<Longrightarrow> t' < 0" "t = 0 \<Longrightarrow> t' = 0"
    and "\<not> m \<le> 0 \<Longrightarrow> m' < 0" "m = 0 \<Longrightarrow> m' = 0"
    and "\<not> s \<le> 0 \<Longrightarrow> s' < 0"
    and "\<not> (if t \<noteq> 0 then t else if m \<noteq> 0 then m else s) \<le> 0"
  shows "(if t' \<noteq> 0 then t' else if m' \<noteq> 0 then m' else s') \<le> 0"
  using assms by (auto split: if_splits)

lemma compareRows_textbook:
  "compareRows lc (DISPLAY_COLUMNS ! 1) a b =
     (if lc (Some locale_ko) (get_or_empty a (DISPLAY_COLUMNS ! 1)) (get_or_empty b (DISPLAY_COLUMNS ! 1)) \<noteq> 0
      then lc (Some locale_ko) (get_or_empty a (DISPLAY_COLUMNS ! 1)) (get_or_empty b (DISPLAY_COLUMNS ! 1))
      else if lc (Some locale_ko) (get_or_empty a (DISPLAY_COLUMNS ! 2)) (get_or_empty b (DISPLAY_COLUMNS ! 2)) \<noteq> 0
      then lc (Some locale_ko) (get_or_empty a (DISPLAY_COLUMNS ! 2)) (get_or_empty b (DISPLAY_COLUMNS ! 2))
      else lc (Some locale_ko) (get_or_empty a (DISPLAY_COLUMNS ! 3)) (get_or_empty b (DISPLAY_COLUMNS ! 3)))"
  by (simp add: compareRows_def Let_def)

lemma compareRows_other:
  "key \<noteq> DISPLAY_COLUMNS ! 1 \<Longrightarrow>
   compareRows lc key a b = lc (Some locale_ko) (get_or_empty a key) (get_or_empty b key)"
  by (simp add: compareRows_def)

lemma compareRows_le_key:
  assumes "compareRows lc key a b \<le> 0"
  shows "lc (Some locale_ko) (get_or_empty a key) (get_or_empty b key) \<le> 0"
proof (cases "key = DISPLAY_COLUMNS ! 1")
  case True
  from assms show ?thesis
    unfolding True compareRows_textbook by (simp split: if_splits)
next
  case False
  with assms show ?thesis by (simp add: compareRows_other)
qed

lemma compareRows_total:
  assumes c: "consistent_comparator (lc (Some locale_ko))" and p: "\<not> compareRows lc key a b \<le> 0"
  shows "compareRows lc key b a \<le> 0"
proof (cases "key = DISPLAY_COLUMNS ! 1")
  case False
  with p consistent_pos_neg[OF c] show ?thesis
    by (simp add: compareRows_other less_imp_le)
next
  case True
  from p show ?thesis
    unfolding True compareRows_textbook
    by (rule chain_total[rotated 5])
       (erule consistent_pos_neg[OF c] | erule consistent_zero[OF c])+
qed

lemma compareRows_alt_total:
  assumes c: "consistent_comparator (lc None)" and p: "\<not> compareRows_alt lc a b \<le> 0"
  shows "compareRows_alt lc b a \<le> 0"
  using p consistent_pos_neg[OF c] by (simp add: compareRows_alt_def less_imp_le)

text \<open>The sample host is a consistent comparator under every locale.\<close>

lemma consistent_comparator_on_keys:
  assumes "consistent_comparator cmp"
  shows "consistent_comparator (\<lambda>a b. cmp (f a) (f b))"
  using assms unfolding consistent_comparator_def by blast

lemma sample_host_consistent: "consistent_comparator (sample_host locale)"
proof (cases "locale = Some locale_ko")
  case True
  then have "sample_host locale = (\<lambda>a b. codeunit_compare (hangul_first a) (hangul_first b))"
    by (simp add: sample_host_def fun_eq_iff)
  then show ?thesis
    using consistent_comparator_on_keys[OF codeunit_compare_consistent, of hangul_first] by simp
next
  case False
  then have "sample_host locale = codeunit_compare"
    by (simp add: sample_host_def fun_eq_iff)
  then show ?thesis by (simp add: codeunit_compare_consistent)
qed

lemma sample_host_titles:
  "sample_host None (js ''a'') [0xAC00] = - 1"
  "sample_host None [0xAC00] (js ''a'') = 1"
  "sample_host (Some locale_ko) (js ''a'') [0xAC00] = 1"
  "sample_host (Some locale_ko) [0xAC00] (js ''a'') = - 1"
  by (simp_all add: sample_host_def hangul_first_def locale_ko_def js_def)

section \<open>Filtering and searching\<close>

lemma str_includes_iff: "str_includes s t \<longleftrightarrow> (\<exists>ps ss. s = ps @ t @ ss)"
proof (induction s)
  case Nil
  show ?case by auto
next
  case (Cons c cs)
  show ?case
  proof
    assume "str_includes (c # cs) t"
    then consider "take (length t) (c # cs) = t" | "str_includes cs t" by auto
    then show "\<exists>ps ss. c # cs = ps @ t @ ss"
    proof cases
      case 1
      then have "c # cs = [] @ t @ drop (length t) (c # cs)"
        by (metis append_Nil append_take_drop_id)
      then show ?thesis by blast
    next
      case 2
      with Cons.IH obtain ps ss where "cs = ps @ t @ ss" by blast
      then have "c # cs = (c # ps) @ t @ ss" by simp
      then show ?thesis by blast
    qed
  next
    assume "\<exists>ps ss. c # cs = ps @ t @ ss"
    then obtain ps ss where e: "c # cs = ps @ t @ ss" by blast
    show "str_includes (c # cs) t"
    proof (cases ps)
      case Nil
      with e have "take (length t) (c # cs) = t" by simp
      then show ?thesis by simp
    next
      case (Cons p ps')
      with e have "cs = ps' @ t @ ss" by simp
      with Cons.IH show ?thesis by auto
    qed
  qed
qed

lemma apply_filter_col_subset: "set (apply_filter_col fs rs col) \<subseteq> set rs"
  by (auto simp: apply_filter_col_def split: option.splits)

lemma foldl_filters_subset: "set (foldl (apply_filter_col fs) rs cols) \<subseteq> set rs"
proof (induction cols arbitrary: rs)
  case Nil
  show ?case by simp
next
  case (Cons c cols)
  have "set (foldl (apply_filter_col fs) (apply_filter_col fs rs c) cols)
        \<subseteq> set (apply_filter_col fs rs c)"
    by (rule Cons.IH)
  also have "\<dots> \<subseteq> set rs" by (rule apply_filter_col_subset)
  finally show ?case by simp
qed

lemma foldl_filters_sound:
  assumes "fs col = Some v" and "v \<noteq> []"
  shows "col \<in> set cols \<Longrightarrow> row \<in> set (foldl (apply_filter_col fs) rs cols) \<Longrightarrow>
         map_of row col = Some v"
proof (induction cols arbitrary: rs)
  case Nil
  then show ?case by simp
next
  case (Cons c cols)
  show ?case
  proof (cases "c = col")
    case True
    from Cons.prems(2) have "row \<in> set (apply_filter_col fs rs c)"
      using foldl_filters_subset[of fs "apply_filter_col fs rs c" cols] by auto
    with True assms show ?thesis by (simp add: apply_filter_col_def)
  next
    case False
    with Cons.prems(1) have "col \<in> set cols" by simp
    from Cons.IH[OF this] Cons.prems(2) show ?thesis by simp
  qed
qed

lemma filteredData_subset:
  "set (filteredData lower lc rows term fs key)
   \<subseteq> set (foldl (apply_filter_col fs) rows FILTERABLE_COLUMNS)"
  by (auto simp: filteredData_def Let_def set_js_sort)

lemma filteredData_alt_filterMatch:
  "row \<in> set (filteredData_alt lower lc rows term fs) \<Longrightarrow> filterMatch fs row"
  by (auto simp: filteredData_alt_def Let_def set_js_sort split: if_splits)

lemma filterMatch_sound:
  "filterMatch fs row \<Longrightarrow> col \<in> set FILTERABLE_COLUMNS \<Longrightarrow> fs col = Some v \<Longrightarrow> v \<noteq> [] \<Longrightarrow>
   map_of row col = Some v"
  by (auto simp: filterMatch_def list_all_iff)
lemma searchMatch_sound:
  "searchMatch lower t row \<Longrightarrow> \<exists>v. map_of row col_title = Some v \<and> v \<noteq> [] \<and> str_includes (lower v) t"
  by (auto simp: searchMatch_def SEARCHABLE_COLUMNS_def split: option.splits)

lemma filteredData_searchMatch:
  "term \<noteq> [] \<Longrightarrow> row \<in> set (filteredData lower lc rows term fs key) \<Longrightarrow>
   searchMatch lower (lower term) row"
  by (auto simp: filteredData_def Let_def set_js_sort)

lemma filteredData_alt_searchMatch:
  "term \<noteq> [] \<Longrightarrow> row \<in> set (filteredData_alt lower lc rows term fs) \<Longrightarrow>
   searchMatch lower (lower term) row"
  by (auto simp: filteredData_alt_def Let_def set_js_sort split: if_splits)

text \<open>The pipeline on the sample rows.\<close>

lemma sample_filtered:
  "filteredData ascii_lower (\<lambda>locale. codeunit_compare) [sample_row1, sample_row2, sample_row3] (js ''E'')
     sample_filters col_title = [sample_row3, sample_row1]"
  by (simp add: filteredData_def Let_def apply_filter_col_def searchMatch_def js_sort_def
       compareRows_def locale_ko_def get_or_empty_def ascii_lower_def js_def sample_defs)

lemma sample_filtered_alt:
  "filteredData_alt ascii_lower (\<lambda>locale. codeunit_compare) [sample_row1, sample_row2, sample_row3] (js ''E'')
     sample_filters = [sample_row3, sample_row1]"
  by (simp add: filteredData_alt_def Let_def filterMatch_def searchMatch_def js_sort_def
       compareRows_alt_def get_or_empty_def ascii_lower_def js_def sample_defs)

lemma sample_sorted_by_textbook:
  "filteredData ascii_lower (\<lambda>locale. codeunit_compare) [sample_row1, sample_row2, sample_row3] []
     Map.empty col_textbook = [sample_row2, sample_row1, sample_row3]"
  by (simp add: filteredData_def Let_def apply_filter_col_def searchMatch_def js_sort_def
       compareRows_def locale_ko_def get_or_empty_def ascii_lower_def js_def sample_defs)

lemma sample_sorted_alt:
  "filteredData_alt ascii_lower (\<lambda>locale. codeunit_compare) [sample_row1, sample_row2, sample_row3] []
     Map.empty = [sample_row3, sample_row1, sample_row2]"
  by (simp add: filteredData_alt_def Let_def filterMatch_def searchMatch_def js_sort_def
       compareRows_alt_def get_or_empty_def ascii_lower_def js_def sample_defs)

section \<open>Claims about the pipeline\<close>

text \<open>
  C1. Filter soundness: whatever the dataset, the filter selection, the search term and
  the sort key, every record of the result sequence has, on every filterable column
  with an active filter (a selected value that is not the empty string), exactly the
  selected value, compared code unit by code unit. This holds for the pipeline of both
  App components.
\<close>

theorem filter_soundness:
  assumes "col \<in> set FILTERABLE_COLUMNS" and "fs col = Some v" and "v \<noteq> []"
  shows "(\<forall>row \<in> set (filteredData lower lc rows term fs key). map_of row col = Some v) \<and>
         (\<forall>row \<in> set (filteredData_alt lower lc' rows term fs). map_of row col = Some v)"
proof (intro conjI ballI)
  fix row assume "row \<in> set (filteredData lower lc rows term fs key)"
  then have "row \<in> set (foldl (apply_filter_col fs) rows FILTERABLE_COLUMNS)"
    using filteredData_subset by blast
  with assms show "map_of row col = Some v"
    using foldl_filters_sound by blast
next
  fix row assume "row \<in> set (filteredData_alt lower lc' rows term fs)"
  then have "filterMatch fs row" by (rule filteredData_alt_filterMatch)
  with assms show "map_of row col = Some v"
    using filterMatch_sound by blast
qed

theorem filter_soundness_witness:
  "col_textbook \<in> set FILTERABLE_COLUMNS \<and> sample_filters col_textbook = Some (js ''B'') \<and>
   js ''B'' \<noteq> [] \<and>
   filteredData ascii_lower (\<lambda>locale. codeunit_compare) [sample_row1, sample_row2, sample_row3] (js ''E'')
     sample_filters col_title = [sample_row3, sample_row1] \<and>
   map_of sample_row3 col_textbook = Some (js ''B'') \<and>
   map_of sample_row1 col_textbook = Some (js ''B'')"
proof -
  have h: "col_textbook \<in> set FILTERABLE_COLUMNS" "sample_filters col_textbook = Some (js ''B'')"
    "js ''B'' \<noteq> []"
    by (simp_all add: FILTERABLE_COLUMNS_def sample_filters_def js_def)
  have "\<forall>row \<in> set [sample_row3, sample_row1]. map_of row col_textbook = Some (js ''B'')"
    using h filter_soundness[of col_textbook sample_filters "js ''B''" ascii_lower "\<lambda>locale. codeunit_compare"
        "[sample_row1, sample_row2, sample_row3]" "js ''E''" col_title]
    by (simp only: sample_filtered) blast
  with h show ?thesis by (simp add: sample_filtered)
qed

text \<open>
  C2. Search soundness: for a search term that is not empty, every record of the result
  sequence has a value in the searchable column whose lower-cased form contains the
  lower-cased term as a contiguous substring; for the empty search term the search step
  lets every record through, so that the result is the sorted output of the filter
  step. This holds for the pipeline of both App components.
\<close>

theorem search_soundness:
  "SEARCHABLE_COLUMNS = [col_title] \<and>
   (term \<noteq> [] \<longrightarrow>
      (\<forall>row \<in> set (filteredData lower lc rows term fs key).
         \<exists>v ps ss. map_of row col_title = Some v \<and> lower v = ps @ lower term @ ss)) \<and>
   (term \<noteq> [] \<longrightarrow>
      (\<forall>row \<in> set (filteredData_alt lower lc' rows term fs).
         \<exists>v ps ss. map_of row col_title = Some v \<and> lower v = ps @ lower term @ ss)) \<and>
   filteredData lower lc rows [] fs key
     = js_sort (compareRows lc key) (foldl (apply_filter_col fs) rows FILTERABLE_COLUMNS) \<and>
   filteredData_alt lower lc' rows [] fs
     = js_sort (compareRows_alt lc') (filter (filterMatch fs) rows)"
proof (intro conjI impI ballI)
  show "SEARCHABLE_COLUMNS = [col_title]" by (simp add: SEARCHABLE_COLUMNS_def)
next
  fix row assume "term \<noteq> []" "row \<in> set (filteredData lower lc rows term fs key)"
  then have "searchMatch lower (lower term) row" by (rule filteredData_searchMatch)
  then show "\<exists>v ps ss. map_of row col_title = Some v \<and> lower v = ps @ lower term @ ss"
    using searchMatch_sound str_includes_iff by blast
next
  fix row assume "term \<noteq> []" "row \<in> set (filteredData_alt lower lc' rows term fs)"
  then have "searchMatch lower (lower term) row" by (rule filteredData_alt_searchMatch)
  then show "\<exists>v ps ss. map_of row col_title = Some v \<and> lower v = ps @ lower term @ ss"
    using searchMatch_sound str_includes_iff by blast
next
  show "filteredData lower lc rows [] fs key
     = js_sort (compareRows lc key) (foldl (apply_filter_col fs) rows FILTERABLE_COLUMNS)"
    by (simp add: filteredData_def)
next
  have "(\<lambda>row. if \<not> filterMatch fs row then False else True) = filterMatch fs" by auto
  then show "filteredData_alt lower lc' rows [] fs
     = js_sort (compareRows_alt lc') (filter (filterMatch fs) rows)"
    by (simp add: filteredData_alt_def)
qed

theorem search_soundness_witness:
  "js ''E'' \<noteq> [] \<and>
   filteredData ascii_lower (\<lambda>locale. codeunit_compare) [sample_row1, sample_row2, sample_row3] (js ''E'')
     sample_filters col_title = [sample_row3, sample_row1] \<and>
   map_of sample_row1 col_title = Some (js ''Zebra'') \<and>
   (\<exists>ps ss. ascii_lower (js ''Zebra'') = ps @ ascii_lower (js ''E'') @ ss)"
proof -
  have h: "js ''E'' \<noteq> []" by (simp add: js_def)
  have "\<forall>row \<in> set [sample_row3, sample_row1].
          \<exists>v ps ss. map_of row col_title = Some v \<and> ascii_lower v = ps @ ascii_lower (js ''E'') @ ss"
    using search_soundness[of "js ''E''" ascii_lower "\<lambda>locale. codeunit_compare"
        "[sample_row1, sample_row2, sample_row3]" sample_filters col_title] h
    by (simp only: sample_filtered) blast
  moreover have m: "map_of sample_row1 col_title = Some (js ''Zebra'')"
    by (simp add: sample_row1_def)
  ultimately have "\<exists>ps ss. ascii_lower (js ''Zebra'') = ps @ ascii_lower (js ''E'') @ ss"
    by auto
  with h m show ?thesis by (simp add: sample_filtered)
qed

text \<open>
  Sortedness in the first App component: when the Korean collation is a consistent
  comparator, any two adjacent records of the result sequence compare as at most zero
  under the comparator of the active sort key. For the sort key of the textbook column
  that comparator is the chain textbook column, major-unit column, minor-unit column,
  each compared with the Korean collation, stopping at the first comparison that is not
  zero; for any other sort key it compares the values of that column. In either case
  the Korean collation of the two values in the sort-key column itself is at most zero.
\<close>

lemma result_sorted:
  assumes "consistent_comparator (lc (Some locale_ko))"
  shows "(\<forall>i. Suc i < length (filteredData lower lc rows term fs key) \<longrightarrow>
            compareRows lc key (filteredData lower lc rows term fs key ! i)
              (filteredData lower lc rows term fs key ! Suc i) \<le> 0) \<and>
         compareRows lc col_textbook a b =
           (if lc (Some locale_ko) (get_or_empty a col_textbook) (get_or_empty b col_textbook) \<noteq> 0
            then lc (Some locale_ko) (get_or_empty a col_textbook) (get_or_empty b col_textbook)
            else if lc (Some locale_ko) (get_or_empty a col_major) (get_or_empty b col_major) \<noteq> 0
            then lc (Some locale_ko) (get_or_empty a col_major) (get_or_empty b col_major)
            else lc (Some locale_ko) (get_or_empty a col_minor) (get_or_empty b col_minor)) \<and>
         (key \<noteq> col_textbook \<longrightarrow>
            compareRows lc key a b
              = lc (Some locale_ko) (get_or_empty a key) (get_or_empty b key)) \<and>
         (\<forall>i. Suc i < length (filteredData lower lc rows term fs key) \<longrightarrow>
            lc (Some locale_ko) (get_or_empty (filteredData lower lc rows term fs key ! i) key)
              (get_or_empty (filteredData lower lc rows term fs key ! Suc i) key) \<le> 0)"
proof -
  have cols: "DISPLAY_COLUMNS ! 1 = col_textbook"
    "DISPLAY_COLUMNS ! 2 = col_major" "DISPLAY_COLUMNS ! 3 = col_minor"
    by (simp_all add: DISPLAY_COLUMNS_def)
  have "adjacent_sorted (compareRows lc key) (filteredData lower lc rows term fs key)"
    unfolding filteredData_def Let_def
    by (rule adjacent_sorted_js_sort) (rule compareRows_total[of lc, OF assms])
  then have 1: "\<forall>i. Suc i < length (filteredData lower lc rows term fs key) \<longrightarrow>
            compareRows lc key (filteredData lower lc rows term fs key ! i)
              (filteredData lower lc rows term fs key ! Suc i) \<le> 0"
    using adjacent_sorted_nth by blast
  have 2: "compareRows lc col_textbook a b =
           (if lc (Some locale_ko) (get_or_empty a col_textbook) (get_or_empty b col_textbook) \<noteq> 0
            then lc (Some locale_ko) (get_or_empty a col_textbook) (get_or_empty b col_textbook)
            else if lc (Some locale_ko) (get_or_empty a col_major) (get_or_empty b col_major) \<noteq> 0
            then lc (Some locale_ko) (get_or_empty a col_major) (get_or_empty b col_major)
            else lc (Some locale_ko) (get_or_empty a col_minor) (get_or_empty b col_minor))"
    using compareRows_textbook[of lc a b] by (simp only: cols)
  have 3: "key \<noteq> col_textbook \<longrightarrow>
            compareRows lc key a b
              = lc (Some locale_ko) (get_or_empty a key) (get_or_empty b key)"
    using compareRows_other[of key lc a b] by (simp only: cols) blast
  have 4: "\<forall>i. Suc i < length (filteredData lower lc rows term fs key) \<longrightarrow>
            lc (Some locale_ko) (get_or_empty (filteredData lower lc rows term fs key ! i) key)
              (get_or_empty (filteredData lower lc rows term fs key ! Suc i) key) \<le> 0"
    using 1 compareRows_le_key by blast
  from 1 2 3 4 show ?thesis by blast
qed

lemma result_sorted_sample:
  "consistent_comparator codeunit_compare \<and>
   filteredData ascii_lower (\<lambda>locale. codeunit_compare) [sample_row1, sample_row2, sample_row3] []
     Map.empty col_textbook = [sample_row2, sample_row1, sample_row3] \<and>
   compareRows (\<lambda>locale. codeunit_compare) col_textbook sample_row2 sample_row1 \<le> 0 \<and>
   compareRows (\<lambda>locale. codeunit_compare) col_textbook sample_row1 sample_row3 \<le> 0"
proof -
  let ?lc = "\<lambda>locale :: jsstring option. codeunit_compare"
  let ?res = "filteredData ascii_lower ?lc [sample_row1, sample_row2, sample_row3] []
     Map.empty col_textbook"
  have r: "?res = [sample_row2, sample_row1, sample_row3]"
    by (rule sample_sorted_by_textbook)
  have c: "consistent_comparator (?lc (Some locale_ko))"
    by (simp add: codeunit_compare_consistent)
  have "\<forall>i. Suc i < length ?res \<longrightarrow> compareRows ?lc col_textbook (?res ! i) (?res ! Suc i) \<le> 0"
    using result_sorted[of ?lc, OF c] by blast
  then have "\<forall>i. Suc i < 3 \<longrightarrow>
      compareRows ?lc col_textbook ([sample_row2, sample_row1, sample_row3] ! i)
        ([sample_row2, sample_row1, sample_row3] ! Suc i) \<le> 0"
    by (simp only: r) simp
  then have "compareRows ?lc col_textbook ([sample_row2, sample_row1, sample_row3] ! 0)
        ([sample_row2, sample_row1, sample_row3] ! Suc 0) \<le> 0
      \<and> compareRows ?lc col_textbook ([sample_row2, sample_row1, sample_row3] ! 1)
        ([sample_row2, sample_row1, sample_row3] ! Suc 1) \<le> 0"
    by (metis One_nat_def Suc_1 lessI numeral_3_eq_3 Suc_lessD)
  with r show ?thesis
    using codeunit_compare_consistent by simp
qed

text \<open>
  The second App component has no sort key: it always compares the first display
  column, and it calls \<open>localeCompare\<close> without a locale. Its result is sorted under
  the collation of the host's default locale, when that is a consistent comparator.
\<close>

lemma result_sorted_alt:
  assumes "consistent_comparator (lc None)"
  shows "\<forall>i. Suc i < length (filteredData_alt lower lc rows term fs) \<longrightarrow>
            lc None (get_or_empty (filteredData_alt lower lc rows term fs ! i) col_title)
              (get_or_empty (filteredData_alt lower lc rows term fs ! Suc i) col_title) \<le> 0"
proof -
  have "adjacent_sorted (compareRows_alt lc) (filteredData_alt lower lc rows term fs)"
    unfolding filteredData_alt_def Let_def
    by (rule adjacent_sorted_js_sort) (rule compareRows_alt_total[of lc, OF assms])
  then show ?thesis
    using adjacent_sorted_nth[of "compareRows_alt lc"]
    by (simp add: compareRows_alt_def DISPLAY_COLUMNS_def)
qed

text \<open>
  C3. Sortedness of the result sequence under the Korean collation. The first App
  component has it (\<open>result_sorted\<close>). The second one calls \<open>localeCompare\<close> without
  the locale \<open>'ko'\<close> that the first one passes, and sorts by the host's default
  collation: on the sample host, from the rows titled with the Hangul syllable U+AC00
  and with \<open>a\<close>, it returns the Latin title first, and the Korean collation of that
  adjacent pair is 1, not at most zero. The first component returns the Hangul title
  first on the same host.
\<close>

theorem alt_result_not_korean_sorted:
  "filteredData_alt ascii_lower sample_host [sample_row_hangul, sample_row_latin] [] Map.empty
     = [sample_row_latin, sample_row_hangul] \<and>
   sample_host (Some locale_ko) (get_or_empty sample_row_latin col_title)
     (get_or_empty sample_row_hangul col_title) = 1 \<and>
   filteredData ascii_lower sample_host [sample_row_latin, sample_row_hangul] [] Map.empty col_title
     = [sample_row_hangul, sample_row_latin]"
proof -
  have t: "get_or_empty sample_row_latin col_title = js ''a''"
    "get_or_empty sample_row_hangul col_title = [0xAC00]"
    by (simp_all add: get_or_empty_def sample_row_latin_def sample_row_hangul_def)
  have k: "col_title \<noteq> DISPLAY_COLUMNS ! 1" "DISPLAY_COLUMNS ! 0 = col_title"
    by (simp_all add: DISPLAY_COLUMNS_def col_title_def col_textbook_def)
  have f: "filterMatch Map.empty row" for row
    by (simp add: filterMatch_def FILTERABLE_COLUMNS_def)
  have g: "foldl (apply_filter_col Map.empty) rows FILTERABLE_COLUMNS = rows" for rows
    by (simp add: apply_filter_col_def FILTERABLE_COLUMNS_def)
  have a: "filteredData_alt ascii_lower sample_host [sample_row_hangul, sample_row_latin] []
             Map.empty = [sample_row_latin, sample_row_hangul]"
    by (simp add: filteredData_alt_def f js_sort_def compareRows_alt_def k t sample_host_titles)
  have b: "filteredData ascii_lower sample_host [sample_row_latin, sample_row_hangul] [] Map.empty
             col_title = [sample_row_hangul, sample_row_latin]"
    by (simp add: filteredData_def g js_sort_def compareRows_def k t sample_host_titles)
  from a b t sample_host_titles(3) show ?thesis by simp
qed

section \<open>Rows, fetch runs and transitions\<close>







lemma trim_nonempty: "trim v \<noteq> [] \<Longrightarrow> v \<noteq> []"
  by (auto simp: trim_def)

lemma has_content_iff: "has_content row \<longleftrightarrow> (\<exists>v \<in> snd ` set row. trim v \<noteq> [])"
  unfolding has_content_def list_ex_iff
  using trim_nonempty by auto

lemma newRows_has_content: "row \<in> set (newRows lines) \<Longrightarrow> has_content row"
  by (auto simp: newRows_def Let_def)

lemma fetch_run_data:
  "data (fetch_run rows st resp now) =
     (case resp of
        Rejected m \<Rightarrow> data st
      | Response status body \<Rightarrow>
          if \<not> response_ok status then data st
          else if length (body_lines body) < 2 then []
          else rows (body_lines body))"
  by (simp add: fetch_run_def Let_def split: response.splits)

lemma fetch_run_error_short:
  "response_ok status \<Longrightarrow> length (body_lines body) < 2 \<Longrightarrow>
   error (fetch_run rows st (Response status body) now)
     = (if isInitialMount st then Some SheetEmpty else None)"
  by (simp add: fetch_run_def Let_def)

lemma fetch_run_keeps:
  "searchTerm (fetch_run rows st resp now) = searchTerm st"
  "filters (fetch_run rows st resp now) = filters st"
  "currentPage (fetch_run rows st resp now) = currentPage st"
  "base_state.more (fetch_run rows st resp now) = base_state.more st"
  by (simp_all add: fetch_run_def Let_def split: response.splits)

lemma fetchData_sortKey: "sortKey (fetchData st resp now) = sortKey st"
  by (simp add: fetchData_def fetch_run_def Let_def split: response.splits)

lemma paginatedData_first: "paginatedData rows 1 = take 20 rows"
  by (simp add: paginatedData_def js_slice_def ITEMS_PER_PAGE_def Let_def min_def)

lemma step_resets_page:
  assumes "searchTerm (step st ev) \<noteq> searchTerm st \<or> filters (step st ev) \<noteq> filters st
           \<or> sortKey (step st ev) \<noteq> sortKey st"
  shows "currentPage (step st ev) = 1"
  using assms
  by (cases ev) (auto simp: step_def Let_def fetchData_def fetch_run_keeps fetchData_sortKey[unfolded fetchData_def])

lemma step_alt_resets_page:
  assumes "searchTerm (step_alt st ev) \<noteq> searchTerm st \<or> filters (step_alt st ev) \<noteq> filters st"
  shows "currentPage (step_alt st ev) = 1"
  using assms
  by (cases ev) (auto simp: step_alt_def Let_def fetchData_alt_def fetch_run_keeps)

text \<open>Two response bodies, read by both components.\<close>

lemma lines_blank_row:
  "body_lines (js ''a,b\<newline> , \<newline>1,2\<newline>'') = [js ''a,b'', js '' , '', js ''1,2'']"
  by (simp add: body_lines_def trim_def isWhiteSpace_def js_def LF_def CR_def)

lemma newRows_alt_blank_row:
  "newRows_alt [js ''a,b'', js '' , '', js ''1,2'']
   = [[(js ''a'', []), (js ''b'', [])], [(js ''a'', js ''1''), (js ''b'', js ''2'')]]"
  by (simp add: newRows_alt_def parse_headers_def make_row_def set_prop_def proto_key_def normalize_value_def value_at_def
      stripQuotes_def trim_def isWhiteSpace_def js_def quote_def comma_def enumerate_eq_zip upt_rec)

lemma newRows_blank_row:
  "newRows [js ''a,b'', js '' , '', js ''1,2''] = [[(js ''a'', js ''1''), (js ''b'', js ''2'')]]"
  by (simp add: newRows_def parse_headers_def make_row_def set_prop_def proto_key_def normalize_value_def value_at_def
      has_content_def parseCsvLine_def scan.simps stripQuotes_def trim_def isWhiteSpace_def js_def
      quote_def comma_def enumerate_eq_zip upt_rec)




lemma lines_header_only: "body_lines (js ''a,b\<newline>'') = [js ''a,b'']"
  by (simp add: body_lines_def trim_def isWhiteSpace_def js_def LF_def CR_def)

text \<open>
  The first component publishes only rows with content: every record of a dataset it
  builds has a value that is not empty after trimming.
\<close>

lemma newRows_rows_have_content:
  "row \<in> set (newRows lines) \<Longrightarrow> \<exists>v \<in> snd ` set row. trim v \<noteq> []"
  using newRows_has_content has_content_iff by blast

section \<open>Claims about fetching and state\<close>

text \<open>
  C7. Blank-row exclusion: a data row whose values are all empty or whitespace is left
  out of the published dataset. The first App component does this (see
  \<open>newRows_rows_have_content\<close>); the second one publishes such a row. For the body with
  the lines \<open>a,b\<close>, a line holding only a blank and a comma, and \<open>1,2\<close>, the second
  component publishes two records, the first of them without content.
\<close>

theorem blank_row_published_alt:
  "data (fetchData_alt st (Response 200 (js ''a,b\<newline> , \<newline>1,2\<newline>'')) now)
     = [[(js ''a'', []), (js ''b'', [])], [(js ''a'', js ''1''), (js ''b'', js ''2'')]] \<and>
   \<not> has_content [(js ''a'', []), (js ''b'', [])] \<and>
   data (fetchData st' (Response 200 (js ''a,b\<newline> , \<newline>1,2\<newline>'')) now)
     = [[(js ''a'', js ''1''), (js ''b'', js ''2'')]]"
  unfolding fetchData_alt_def fetchData_def fetch_run_data
  by (simp add: lines_blank_row newRows_alt_blank_row newRows_blank_row response_ok_def
      has_content_def)

text \<open>
  C9, as the code has it. For a fetch with a success status whose body has fewer than
  two lines after trimming, the empty dataset is published, on the first load and on a
  background refresh alike (the previous dataset is not retained), and the empty-sheet
  message is published only on the first load; on a background refresh the error is left
  cleared. This holds for both App components.
\<close>

theorem short_feed_handling:
  assumes "response_ok status" and "length (body_lines body) < 2"
  shows "data (fetchData st (Response status body) now) = [] \<and>
         error (fetchData st (Response status body) now)
           = (if isInitialMount st then Some SheetEmpty else None) \<and>
         data (fetchData_alt st' (Response status body) now) = [] \<and>
         error (fetchData_alt st' (Response status body) now)
           = (if isInitialMount st' then Some SheetEmpty else None)"
  using assms
  by (simp add: fetchData_def fetchData_alt_def fetch_run_data fetch_run_error_short)

theorem short_feed_handling_witness:
  "response_ok 200 \<and> length (body_lines (js ''a,b\<newline>'')) < 2 \<and>
   data (fetchData sample_state (Response 200 (js ''a,b\<newline>'')) 7) = [] \<and>
   error (fetchData sample_state (Response 200 (js ''a,b\<newline>'')) 7) = None \<and>
   error (fetchData (sample_state\<lparr>isInitialMount := True\<rparr>) (Response 200 (js ''a,b\<newline>'')) 7)
     = Some SheetEmpty"
proof -
  have h: "response_ok 200" "length (body_lines (js ''a,b\<newline>'')) < 2"
    by (simp_all add: response_ok_def lines_header_only)
  from short_feed_handling[OF h, of sample_state 7]
    short_feed_handling[OF h, of "sample_state\<lparr>isInitialMount := True\<rparr>" 7]
  show ?thesis using h by (simp add: sample_state_def)
qed

text \<open>
  The claim C9 as stated fails: on a background refresh (the initial-mount flag is
  already off) whose body is a header line only, no error message is published, and the
  previously published dataset is replaced by the empty one.
\<close>

theorem short_feed_refresh_counterexample:
  "\<not> isInitialMount sample_state \<and>
   length (body_lines (js ''a,b\<newline>'')) < 2 \<and>
   error (fetchData sample_state (Response 200 (js ''a,b\<newline>'')) 7) = None \<and>
   data sample_state = [sample_row1] \<and>
   data (fetchData sample_state (Response 200 (js ''a,b\<newline>'')) 7) = [] \<and>
   data (fetchData sample_state (Response 200 (js ''a,b\<newline>'')) 7) \<noteq> data sample_state"
  by (simp add: fetchData_def fetch_run_def sample_state_def response_ok_def Let_def
      lines_header_only)




text \<open>
  C8. Page reset: after a transition that changes the search term, the filter selection
  or the sort key, the current page is 1, and the page shown is the first twenty records
  of the new result sequence. This holds from every state, for both App components (the
  second has no sort key to change).
\<close>

theorem page_reset:
  "(searchTerm (step st ev) \<noteq> searchTerm st \<or> filters (step st ev) \<noteq> filters st
      \<or> sortKey (step st ev) \<noteq> sortKey st \<longrightarrow>
      currentPage (step st ev) = 1 \<and>
      paginatedData
        (filteredData lower lc (data (step st ev)) (searchTerm (step st ev)) (filters (step st ev))
           (sortKey (step st ev)))
        (currentPage (step st ev))
      = take 20
          (filteredData lower lc (data (step st ev)) (searchTerm (step st ev))
             (filters (step st ev)) (sortKey (step st ev)))) \<and>
   (searchTerm (step_alt st' ev') \<noteq> searchTerm st' \<or> filters (step_alt st' ev') \<noteq> filters st' \<longrightarrow>
      currentPage (step_alt st' ev') = 1 \<and>
      paginatedData
        (filteredData_alt lower lc' (data (step_alt st' ev')) (searchTerm (step_alt st' ev'))
           (filters (step_alt st' ev')))
        (currentPage (step_alt st' ev'))
      = take 20
          (filteredData_alt lower lc' (data (step_alt st' ev')) (searchTerm (step_alt st' ev'))
             (filters (step_alt st' ev'))))"
  using step_resets_page[of st ev] step_alt_resets_page[of st' ev']
  by (simp add: paginatedData_first)

theorem page_reset_witness:
  "currentPage sample_state = 3 \<and>
   searchTerm (step sample_state (SetSearchTerm (js ''x''))) \<noteq> searchTerm sample_state \<and>
   currentPage (step sample_state (SetSearchTerm (js ''x''))) = 1 \<and>
   currentPage sample_state_alt = 3 \<and>
   filters (step_alt sample_state_alt (FilterChange_alt col_major (js ''x''))) \<noteq> filters sample_state_alt \<and>
   currentPage (step_alt sample_state_alt (FilterChange_alt col_major (js ''x''))) = 1"
proof -
  have a: "searchTerm (step sample_state (SetSearchTerm (js ''x''))) \<noteq> searchTerm sample_state"
    by (simp add: step_def sample_state_def js_def)
  have "filters (step_alt sample_state_alt (FilterChange_alt col_major (js ''x''))) col_major
        \<noteq> filters sample_state_alt col_major"
    by (simp add: step_alt_def sample_state_alt_def handleFilterChange_alt_def)
  then have b: "filters (step_alt sample_state_alt (FilterChange_alt col_major (js ''x'')))
        \<noteq> filters sample_state_alt"
    by metis
  have c: "currentPage (step sample_state (SetSearchTerm (js ''x''))) = 1"
    using a page_reset[of sample_state "SetSearchTerm (js ''x'')" ascii_lower "\<lambda>locale. codeunit_compare"
        sample_state_alt "FilterChange_alt col_major (js ''x'')" "\<lambda>locale. codeunit_compare"]
    by blast
  have d: "currentPage (step_alt sample_state_alt (FilterChange_alt col_major (js ''x''))) = 1"
    using b page_reset[of sample_state "SetSearchTerm (js ''x'')" ascii_lower "\<lambda>locale. codeunit_compare"
        sample_state_alt "FilterChange_alt col_major (js ''x'')" "\<lambda>locale. codeunit_compare"]
    by blast
  have e: "currentPage sample_state = 3" "currentPage sample_state_alt = 3"
    by (simp_all add: sample_state_def sample_state_alt_def)
  from a b c d e show ?thesis by blast
qed

end
